theory Spec2Isabelle
  imports Complex_Main
begin

section \<open>The PDF downloader of download\_laws.py\<close>

text \<open>
  A shallow embedding of \<^verbatim>\<open>src/download_laws.py\<close>: the name sanitizer, the two
  retrying HTTP clients, the recursive tree walker and the run controller.

  A Python \<^verbatim>\<open>str\<close> is modelled as a \<^typ>\<open>string\<close>: one list element per character of
  the Python string, so that \<^term>\<open>length\<close> is Python's \<^verbatim>\<open>len\<close>. The functions below
  single out eleven ASCII characters (the nine reserved ones, the dot and the space) and
  the letters of \<^verbatim>\<open>.pdf\<close>; every other character is passed through unchanged, so
  nothing below depends on which other characters there are.
\<close>

subsection \<open>Configuration constants\<close>

type_synonym path = "string list"

definition OUTPUT_DIR :: path where
  "OUTPUT_DIR = [''laws'']"

definition ROOT_FOLDER_IDS :: "int list" where
  "ROOT_FOLDER_IDS = [12, 569]"

definition MAX_RETRIES :: nat where
  "MAX_RETRIES = 3"

definition RETRY_DELAY :: real where
  "RETRY_DELAY = 2"

definition DOWNLOAD_DELAY :: real where
  "DOWNLOAD_DELAY = 0.5"

subsection \<open>Name sanitizer\<close>

text \<open>
  The character class \<^verbatim>\<open>[<>:"/\\|?*]\<close> of \<^verbatim>\<open>sanitize_filename\<close>: nine characters, the
  double quote being \<open>0x22\<close> and the backslash \<open>0x5C\<close>.
\<close>

definition invalid_chars :: "char list" where
  "invalid_chars =
     [CHR ''<'', CHR ''>'', CHR '':'', CHR 0x22, CHR ''/'', CHR 0x5C, CHR ''|'', CHR ''?'', CHR ''*'']"

text \<open>\<^verbatim>\<open>re.sub(invalid_chars, '_', name)\<close>: every reserved character becomes an underscore.\<close>

definition re_sub_invalid :: "string \<Rightarrow> string" where
  "re_sub_invalid name = map (\<lambda>c. if c \<in> set invalid_chars then CHR ''_'' else c) name"

text \<open>\<^verbatim>\<open>s.strip(chars)\<close>: drops the characters of \<open>chars\<close> from both ends.\<close>

definition strip :: "char list \<Rightarrow> string \<Rightarrow> string" where
  "strip chars s =
     rev (dropWhile (\<lambda>c. c \<in> set chars) (rev (dropWhile (\<lambda>c. c \<in> set chars) s)))"

definition sanitize_filename :: "string \<Rightarrow> string" where
  "sanitize_filename name =
     (let sanitized = re_sub_invalid name;
          sanitized = strip ''. '' sanitized;
          sanitized = (if length sanitized > 200 then take 200 sanitized else sanitized)
      in if sanitized \<noteq> [] then sanitized else ''unnamed'')"

subsection \<open>File names\<close>

text \<open>
  \<^verbatim>\<open>str.lower\<close> on the letters \<open>A\<close> to \<open>Z\<close>. The walker only asks whether the lowered
  name ends in \<^verbatim>\<open>.pdf\<close>, and no character other than \<open>P\<close>, \<open>D\<close>, \<open>F\<close> lowers to
  \<open>p\<close>, \<open>d\<close>, \<open>f\<close>.
\<close>

definition lower_char :: "char \<Rightarrow> char" where
  "lower_char c =
     (case map_of (zip ''ABCDEFGHIJKLMNOPQRSTUVWXYZ'' ''abcdefghijklmnopqrstuvwxyz'') c of
        None \<Rightarrow> c
      | Some l \<Rightarrow> l)"

definition lower :: "string \<Rightarrow> string" where
  "lower s = map lower_char s"

definition endswith :: "string \<Rightarrow> string \<Rightarrow> bool" where
  "endswith s suffix = (length suffix \<le> length s \<and> drop (length s - length suffix) s = suffix)"

text \<open>\<^verbatim>\<open>s.split('/')[-1]\<close>: what follows the last slash, the whole string when there is none.\<close>

definition last_segment :: "string \<Rightarrow> string" where
  "last_segment s = rev (takeWhile (\<lambda>c. c \<noteq> CHR ''/'') (rev s))"

text \<open>\<^verbatim>\<open>str(n)\<close> of a Python integer, used in \<^verbatim>\<open>f'resources_{root_id}'\<close>.\<close>

definition digit :: "nat \<Rightarrow> char" where
  "digit d = ''0123456789'' ! d"

function str_nat :: "nat \<Rightarrow> string" where
  "str_nat n = (if n < 10 then [digit n] else str_nat (n div 10) @ [digit (n mod 10)])"
  by pat_completeness auto
termination
  by (relation "measure id") auto

declare str_nat.simps [simp del]

definition str_int :: "int \<Rightarrow> string" where
  "str_int i = (if i < 0 then CHR ''-'' # str_nat (nat (- i)) else str_nat (nat i))"

subsection \<open>Decoded JSON and Python's dynamic checks\<close>

text \<open>
  What \<^verbatim>\<open>response.json()\<close> returns: \<open>JNull\<close> is Python's \<^verbatim>\<open>None\<close>, \<open>JObj\<close> a dict given
  by its items in order (the first binding of a key is the dict's). Using a value at the
  wrong type raises; an exception that nothing in the program catches is the \<open>Inl\<close> of a
  result.
\<close>

datatype json =
    JNull
  | JBool bool
  | JInt int
  | JFloat real
  | JStr string
  | JArr "json list"
  | JObj "(string \<times> json) list"

datatype error = AttributeError | TypeError | RecursionError

text \<open>Truth value of a Python object, as \<^verbatim>\<open>not x\<close> tests it.\<close>

fun truthy :: "json \<Rightarrow> bool" where
  "truthy JNull = False"
| "truthy (JBool b) = b"
| "truthy (JInt i) = (i \<noteq> 0)"
| "truthy (JFloat r) = (r \<noteq> 0)"
| "truthy (JStr s) = (s \<noteq> [])"
| "truthy (JArr xs) = (xs \<noteq> [])"
| "truthy (JObj kvs) = (kvs \<noteq> [])"

text \<open>\<^verbatim>\<open>x.get(key, default)\<close>: only a dict has the method.\<close>

fun dict_get :: "json \<Rightarrow> string \<Rightarrow> json \<Rightarrow> error + json" where
  "dict_get (JObj kvs) key dflt = Inr (case map_of kvs key of None \<Rightarrow> dflt | Some v \<Rightarrow> v)"
| "dict_get _ key dflt = Inl AttributeError"

text \<open>
  \<^verbatim>\<open>for x in v\<close>: a list yields its elements, a dict its keys, a string its characters;
  the other values are not iterable.
\<close>

fun py_iter :: "json \<Rightarrow> error + json list" where
  "py_iter (JArr xs) = Inr xs"
| "py_iter (JObj kvs) = Inr (map (\<lambda>kv. JStr (fst kv)) kvs)"
| "py_iter (JStr s) = Inr (map (\<lambda>c. JStr [c]) s)"
| "py_iter _ = Inl TypeError"

subsection \<open>The world: local filesystem, remote service, delays\<close>

text \<open>
  The local filesystem maps a path (its segments) to a directory or to a file with its
  bytes. Every HTTP request and every \<^verbatim>\<open>time.sleep\<close> is appended to a trace, and \<open>clock\<close>
  counts the requests sent. Filesystem calls are taken to succeed: the program catches no
  \<^verbatim>\<open>OSError\<close>, and a permission or disk failure is outside this model. Console output is
  not modelled.
\<close>

datatype node = Dir | File string

datatype event = GetFolder json | GetFile json | Sleep real

record world =
  fs :: "path \<Rightarrow> node option"
  clock :: nat
  trace :: "event list"

text \<open>
  The remote service and the two library functions the program leaves to Python. A
  request is keyed by the value the program formats into its URL and by the number of
  requests sent before it, so that the service may answer every request differently.
  \<open>FolderError\<close> and \<open>FileError\<close> stand for a \<^verbatim>\<open>requests.RequestException\<close> raised by
  \<^verbatim>\<open>requests.get\<close>, \<^verbatim>\<open>raise_for_status\<close> or \<^verbatim>\<open>response.json()\<close>; \<open>FileStream chunks ok\<close>
  is a body whose chunks arrive in order, after which the stream ends (\<open>ok\<close>) or raises a
  \<^verbatim>\<open>RequestException\<close>.
\<close>

datatype folder_response = FolderError | FolderJson json

datatype file_response = FileError | FileStream "string list" bool

record env =
  folder_api :: "nat \<Rightarrow> json \<Rightarrow> folder_response"
  file_api :: "nat \<Rightarrow> json \<Rightarrow> file_response"
  py_str :: "json \<Rightarrow> string"
  unquote :: "string \<Rightarrow> string"

definition path_exists :: "world \<Rightarrow> path \<Rightarrow> bool" where
  "path_exists w p = (fs w p \<noteq> None)"

definition sleep :: "real \<Rightarrow> world \<Rightarrow> world" where
  "sleep seconds w = w\<lparr>trace := trace w @ [Sleep seconds]\<rparr>"

definition send :: "event \<Rightarrow> world \<Rightarrow> world" where
  "send request w = w\<lparr>clock := Suc (clock w), trace := trace w @ [request]\<rparr>"

text \<open>\<^verbatim>\<open>p.mkdir(parents=True, exist_ok=True)\<close>: \<open>p\<close> and its missing ancestors become directories.\<close>

definition mkdir :: "path \<Rightarrow> world \<Rightarrow> world" where
  "mkdir p w =
     w\<lparr>fs := (\<lambda>q. if q \<noteq> [] \<and> take (length q) p = q \<and> fs w q = None then Some Dir else fs w q)\<rparr>"

text \<open>
  \<^verbatim>\<open>open(p, 'wb')\<close> followed by one \<^verbatim>\<open>f.write\<close> per chunk received: the file is created
  or truncated, then holds the chunks in order.
\<close>

definition write_chunks :: "path \<Rightarrow> string list \<Rightarrow> world \<Rightarrow> world" where
  "write_chunks p chunks w = w\<lparr>fs := (fs w)(p \<mapsto> File (concat chunks))\<rparr>"

definition unlink :: "path \<Rightarrow> world \<Rightarrow> world" where
  "unlink p w = w\<lparr>fs := (fs w)(p := None)\<rparr>"

subsection \<open>Folder fetcher\<close>

text \<open>The loop \<^verbatim>\<open>for attempt in range(MAX_RETRIES)\<close>, over the attempts still to make.\<close>

fun get_folder_data_loop :: "env \<Rightarrow> json \<Rightarrow> nat list \<Rightarrow> world \<Rightarrow> json \<times> world" where
  "get_folder_data_loop e folder_id [] w = (JNull, w)"
| "get_folder_data_loop e folder_id (attempt # rest) w =
     (case folder_api e (clock w) folder_id of
        FolderJson data \<Rightarrow> (data, send (GetFolder folder_id) w)
      | FolderError \<Rightarrow>
          (let w1 = send (GetFolder folder_id) w;
               w2 = (if attempt < MAX_RETRIES - 1 then sleep RETRY_DELAY w1 else w1)
           in get_folder_data_loop e folder_id rest w2))"

definition get_folder_data :: "env \<Rightarrow> json \<Rightarrow> world \<Rightarrow> json \<times> world" where
  "get_folder_data e folder_id w = get_folder_data_loop e folder_id [0..<MAX_RETRIES] w"

subsection \<open>File downloader\<close>

text \<open>The \<^verbatim>\<open>except\<close> branch: the delay unless this was the last attempt, then the clean-up.\<close>

definition download_except :: "nat \<Rightarrow> path \<Rightarrow> world \<Rightarrow> world" where
  "download_except attempt save_path w =
     (let w1 = (if attempt < MAX_RETRIES - 1 then sleep RETRY_DELAY w else w)
      in if path_exists w1 save_path then unlink save_path w1 else w1)"

fun download_file_loop :: "env \<Rightarrow> json \<Rightarrow> path \<Rightarrow> nat list \<Rightarrow> world \<Rightarrow> bool \<times> world" where
  "download_file_loop e file_path save_path [] w = (False, w)"
| "download_file_loop e file_path save_path (attempt # rest) w =
     (case file_api e (clock w) file_path of
        FileError \<Rightarrow>
          download_file_loop e file_path save_path rest
            (download_except attempt save_path (send (GetFile file_path) w))
      | FileStream chunks ok \<Rightarrow>
          (let w1 = write_chunks save_path chunks (send (GetFile file_path) w)
           in if ok then (True, w1)
              else download_file_loop e file_path save_path rest
                     (download_except attempt save_path w1)))"

definition download_file :: "env \<Rightarrow> json \<Rightarrow> path \<Rightarrow> world \<Rightarrow> bool \<times> world" where
  "download_file e file_path save_path w =
     download_file_loop e file_path save_path [0..<MAX_RETRIES] w"

subsection \<open>Tree walker\<close>

text \<open>
  Lines 141 to 143: the name of a file entry, taken from the last segment of its path
  when the entry has no name. \<^verbatim>\<open>file_path.split\<close> exists only on a string.
\<close>

definition derive_file_name :: "env \<Rightarrow> json \<Rightarrow> json \<Rightarrow> error + json" where
  "derive_file_name e file_path file_name =
     (if \<not> truthy file_name
      then (case file_path of
              JStr p \<Rightarrow> Inr (JStr (unquote e (last_segment p)))
            | _ \<Rightarrow> Inl AttributeError)
      else Inr file_name)"

text \<open>Lines 146 and 147: \<^verbatim>\<open>.pdf\<close> is appended unless the lowered name already ends in it.\<close>

definition ensure_pdf :: "string \<Rightarrow> string" where
  "ensure_pdf file_name =
     (if \<not> endswith (lower file_name) ''.pdf'' then file_name @ ''.pdf'' else file_name)"

text \<open>Lines 142 to 150: the name a file entry is saved under.\<close>

definition local_name :: "env \<Rightarrow> json \<Rightarrow> json \<Rightarrow> error + string" where
  "local_name e file_path file_name =
     (case derive_file_name e file_path file_name of
        Inl err \<Rightarrow> Inl err
      | Inr (JStr n) \<Rightarrow> Inr (sanitize_filename (ensure_pdf n))
      | Inr _ \<Rightarrow> Inl AttributeError)"

text \<open>
  The body of the loop over \<^verbatim>\<open>files\<close>, for one entry, with the two counters it updates.
\<close>

definition process_file ::
  "env \<Rightarrow> path \<Rightarrow> json \<Rightarrow> nat \<Rightarrow> nat \<Rightarrow> world \<Rightarrow> error + nat \<times> nat \<times> world" where
  "process_file e current_path file_info downloaded failed w =
     (case dict_get file_info ''path'' (JStr []) of
        Inl err \<Rightarrow> Inl err
      | Inr file_path \<Rightarrow>
     (case dict_get file_info ''name'' (JStr []) of
        Inl err \<Rightarrow> Inl err
      | Inr file_name \<Rightarrow>
          if \<not> truthy file_path then Inr (downloaded, failed, w)
          else
            (case local_name e file_path file_name of
               Inl err \<Rightarrow> Inl err
             | Inr safe_name \<Rightarrow>
                 (let save_path = current_path @ [safe_name]
                  in if path_exists w save_path then Inr (downloaded + 1, failed, w)
                     else
                       (case download_file e file_path save_path w of
                          (ok, w1) \<Rightarrow>
                            if ok then Inr (downloaded + 1, failed, sleep DOWNLOAD_DELAY w1)
                            else Inr (downloaded, failed + 1, sleep DOWNLOAD_DELAY w1))))))"

fun process_files ::
  "env \<Rightarrow> path \<Rightarrow> json list \<Rightarrow> nat \<Rightarrow> nat \<Rightarrow> world \<Rightarrow> error + nat \<times> nat \<times> world" where
  "process_files e current_path [] downloaded failed w = Inr (downloaded, failed, w)"
| "process_files e current_path (file_info # rest) downloaded failed w =
     (case process_file e current_path file_info downloaded failed w of
        Inl err \<Rightarrow> Inl err
      | Inr (downloaded1, failed1, w1) \<Rightarrow> process_files e current_path rest downloaded1 failed1 w1)"

text \<open>
  The loop over \<^verbatim>\<open>folders\<close>. \<open>recurse\<close> is the recursive call of \<^verbatim>\<open>process_folder\<close>.
  \<^verbatim>\<open>sanitize_filename\<close> hands its argument to \<^verbatim>\<open>re.sub\<close>, which raises \<^verbatim>\<open>TypeError\<close> on
  anything but a string.
\<close>

fun process_subfolders ::
  "(json \<Rightarrow> path \<Rightarrow> world \<Rightarrow> error + nat \<times> nat \<times> world) \<Rightarrow> env \<Rightarrow> path \<Rightarrow> json list
     \<Rightarrow> nat \<Rightarrow> nat \<Rightarrow> world \<Rightarrow> error + nat \<times> nat \<times> world" where
  "process_subfolders recurse e current_path [] downloaded failed w = Inr (downloaded, failed, w)"
| "process_subfolders recurse e current_path (subfolder # rest) downloaded failed w =
     (case dict_get subfolder ''id'' JNull of
        Inl err \<Rightarrow> Inl err
      | Inr subfolder_id \<Rightarrow>
     (case dict_get subfolder ''name'' (JStr (''folder_'' @ py_str e subfolder_id)) of
        Inl err \<Rightarrow> Inl err
      | Inr subfolder_name \<Rightarrow>
          if subfolder_id = JNull
          then process_subfolders recurse e current_path rest downloaded failed w
          else
            (case subfolder_name of
               JStr s \<Rightarrow>
                 (let subfolder_path = current_path @ [sanitize_filename s]
                  in case recurse subfolder_id subfolder_path (mkdir subfolder_path w) of
                       Inl err \<Rightarrow> Inl err
                     | Inr (sub_downloaded, sub_failed, w2) \<Rightarrow>
                         process_subfolders recurse e current_path rest
                           (downloaded + sub_downloaded) (failed + sub_failed) w2)
             | _ \<Rightarrow> Inl TypeError)))"

text \<open>
  \<^verbatim>\<open>process_folder\<close>. The first argument bounds the depth of the recursion, as the
  interpreter's recursion limit does: a remote tree deeper than that (or one that lists a
  folder below itself) ends in \<^verbatim>\<open>RecursionError\<close>.
\<close>

primrec process_folder ::
  "nat \<Rightarrow> env \<Rightarrow> json \<Rightarrow> path \<Rightarrow> world \<Rightarrow> error + nat \<times> nat \<times> world" where
  "process_folder 0 e folder_id current_path w = Inl RecursionError"
| "process_folder (Suc depth_left) e folder_id current_path w =
     (case get_folder_data e folder_id w of
        (data, w1) \<Rightarrow>
          if data = JNull then Inr (0, 0, w1)
          else
            (case dict_get data ''name'' (JStr (''folder_'' @ py_str e folder_id)) of
               Inl err \<Rightarrow> Inl err
             | Inr folder_name \<Rightarrow>
            (case dict_get data ''files'' (JArr []) of
               Inl err \<Rightarrow> Inl err
             | Inr files \<Rightarrow>
            (case py_iter files of
               Inl err \<Rightarrow> Inl err
             | Inr file_list \<Rightarrow>
            (case process_files e current_path file_list 0 0 w1 of
               Inl err \<Rightarrow> Inl err
             | Inr (downloaded, failed, w2) \<Rightarrow>
            (case dict_get data ''folders'' (JArr []) of
               Inl err \<Rightarrow> Inl err
             | Inr folders \<Rightarrow>
            (case py_iter folders of
               Inl err \<Rightarrow> Inl err
             | Inr folder_list \<Rightarrow>
                 process_subfolders (process_folder depth_left e) e current_path folder_list
                   downloaded failed w2)))))))"

subsection \<open>Run controller\<close>

text \<open>The body of the loop of \<^verbatim>\<open>main\<close> over the root ids, with the two totals.\<close>

definition process_root ::
  "nat \<Rightarrow> env \<Rightarrow> int \<Rightarrow> nat \<Rightarrow> nat \<Rightarrow> world \<Rightarrow> error + nat \<times> nat \<times> world" where
  "process_root depth_limit e root_id total_downloaded total_failed w =
     (case get_folder_data e (JInt root_id) w of
        (root_data, w1) \<Rightarrow>
          if root_data = JNull then Inr (total_downloaded, total_failed, w1)
          else
            (case dict_get root_data ''name'' (JStr (''resources_'' @ str_int root_id)) of
               Inl err \<Rightarrow> Inl err
             | Inr root_name \<Rightarrow>
                 (case root_name of
                    JStr s \<Rightarrow>
                      (let root_path = OUTPUT_DIR @ [sanitize_filename s]
                       in case process_folder depth_limit e (JInt root_id) root_path
                                 (mkdir root_path w1) of
                            Inl err \<Rightarrow> Inl err
                          | Inr (downloaded, failed, w3) \<Rightarrow>
                              Inr (total_downloaded + downloaded, total_failed + failed, w3))
                  | _ \<Rightarrow> Inl TypeError)))"

fun main_loop ::
  "nat \<Rightarrow> env \<Rightarrow> int list \<Rightarrow> nat \<Rightarrow> nat \<Rightarrow> world \<Rightarrow> error + nat \<times> nat \<times> world" where
  "main_loop depth_limit e [] total_downloaded total_failed w =
     Inr (total_downloaded, total_failed, w)"
| "main_loop depth_limit e (root_id # rest) total_downloaded total_failed w =
     (case process_root depth_limit e root_id total_downloaded total_failed w of
        Inl err \<Rightarrow> Inl err
      | Inr (total_downloaded1, total_failed1, w1) \<Rightarrow>
          main_loop depth_limit e rest total_downloaded1 total_failed1 w1)"

definition main :: "nat \<Rightarrow> env \<Rightarrow> world \<Rightarrow> error + nat \<times> nat \<times> world" where
  "main depth_limit e w = main_loop depth_limit e ROOT_FOLDER_IDS 0 0 (mkdir OUTPUT_DIR w)"

subsection \<open>Observing a run\<close>

fun is_file_request :: "event \<Rightarrow> bool" where
  "is_file_request (GetFile file_path) = True"
| "is_file_request _ = False"

text \<open>The download requests sent so far, in order.\<close>

definition file_requests :: "world \<Rightarrow> event list" where
  "file_requests w = filter is_file_request (trace w)"

subsection \<open>Example services\<close>

text \<open>
  Concrete services and a fresh working directory, on which the theorems below are
  instantiated. \<open>show_json\<close> is \<^verbatim>\<open>str\<close> on the integers and strings that occur in them, and
  no path of the examples has a percent escape for \<^verbatim>\<open>unquote\<close> to decode.
\<close>

definition show_json :: "json \<Rightarrow> string" where
  "show_json v = (case v of JInt i \<Rightarrow> str_int i | JStr s \<Rightarrow> s | _ \<Rightarrow> ''None'')"

definition empty_world :: world where
  "empty_world = \<lparr>fs = (\<lambda>p. None), clock = 0, trace = []\<rparr>"

text \<open>A service that cannot be reached.\<close>

definition offline :: env where
  "offline =
     \<lparr>folder_api = (\<lambda>t folder_id. FolderError), file_api = (\<lambda>t file_path. FileError),
      py_str = show_json, unquote = (\<lambda>s. s)\<rparr>"

text \<open>A service whose file streams break after two chunks.\<close>

definition broken_stream :: env where
  "broken_stream =
     \<lparr>folder_api = (\<lambda>t folder_id. FolderError),
      file_api = (\<lambda>t file_path. FileStream [''%PDF'', ''-1.4''] False),
      py_str = show_json, unquote = (\<lambda>s. s)\<rparr>"

text \<open>The two folders of the scenario of the specification, every file being served.\<close>

definition scenario_folders :: "json \<Rightarrow> folder_response" where
  "scenario_folders folder_id =
     (if folder_id = JInt 12 then
        FolderJson (JObj [(''name'', JStr ''Laws''), (''files'', JArr []),
          (''folders'', JArr [JObj [(''id'', JInt 99), (''name'', JStr ''Civil Code'')]])])
      else if folder_id = JInt 99 then
        FolderJson (JObj [(''name'', JStr ''Civil Code''),
          (''files'', JArr [JObj [(''path'', JStr ''doc/a.pdf''), (''name'', JStr ''Law A.pdf'')]]),
          (''folders'', JArr [])])
      else FolderError)"

definition scenario :: env where
  "scenario =
     \<lparr>folder_api = (\<lambda>t. scenario_folders), file_api = (\<lambda>t file_path. FileStream [''%PDF''] True),
      py_str = show_json, unquote = (\<lambda>s. s)\<rparr>"


text \<open>A service whose folders are objects with a name and nothing else.\<close>

definition bare_reply :: env where
  "bare_reply =
     \<lparr>folder_api = (\<lambda>t folder_id. FolderJson (JObj [(''name'', JStr ''Lois'')])),
      file_api = (\<lambda>t file_path. FileError), py_str = show_json, unquote = (\<lambda>s. s)\<rparr>"

subsection \<open>Properties of the sanitizer\<close>



















text \<open>
  The cut after the trim, on a name of 201 characters whose 200th is a space: the result
  ends in that space, against the comment \<^verbatim>\<open>Remove leading/trailing spaces and dots\<close>.
\<close>

lemma sanitize_filename_cut_after_trim:
  "sanitize_filename (replicate 199 CHR ''a'' @ '' b'') = replicate 199 CHR ''a'' @ '' ''"
  by (simp add: sanitize_filename_def strip_def re_sub_invalid_def invalid_chars_def Let_def
      dropWhile_append3)

subsection \<open>Properties of the two retrying clients\<close>

lemma attempts: "[0..<MAX_RETRIES] = [0, 1, 2]"
  by (simp add: MAX_RETRIES_def upt_rec)

lemma fs_download_except [simp]: "fs (download_except attempt save_path w) save_path = None"
  by (simp add: download_except_def Let_def unlink_def sleep_def path_exists_def)

lemma download_file_loop_False:
  "download_file_loop e file_path save_path todo w = (False, w')
   \<Longrightarrow> todo \<noteq> [] \<or> fs w save_path = None
   \<Longrightarrow> fs w' save_path = None"
proof (induction todo arbitrary: w)
  case Nil
  then show ?case by simp
next
  case (Cons attempt rest)
  show ?case
  proof (cases "file_api e (clock w) file_path")
    case FileError
    with Cons.prems(1) have
      "download_file_loop e file_path save_path rest
         (download_except attempt save_path (send (GetFile file_path) w)) = (False, w')"
      by simp
    then show ?thesis by (rule Cons.IH) simp
  next
    case (FileStream chunks ok)
    with Cons.prems(1) have ok: "\<not> ok" by (auto simp: Let_def split: if_splits)
    with FileStream Cons.prems(1) have
      "download_file_loop e file_path save_path rest
         (download_except attempt save_path
            (write_chunks save_path chunks (send (GetFile file_path) w))) = (False, w')"
      by (simp add: Let_def)
    then show ?thesis by (rule Cons.IH) simp
  qed
qed

text \<open>
  C3. Whenever \<^verbatim>\<open>download_file\<close> returns \<^verbatim>\<open>False\<close>, nothing exists at the destination
  path: each failed attempt, also one that broke after bytes were written, removes the
  file before the next attempt or the return.
\<close>

theorem download_file_failure_leaves_no_file:
  "download_file e file_path save_path w = (False, w') \<Longrightarrow> fs w' save_path = None"
  unfolding download_file_def
  by (erule download_file_loop_False) (simp add: attempts)

theorem download_file_failure_leaves_no_file_witness:
  "download_file broken_stream (JStr ''doc/a.pdf'') [''laws'', ''a.pdf''] empty_world
     = (False, empty_world\<lparr>clock := 3,
          trace := [GetFile (JStr ''doc/a.pdf''), Sleep RETRY_DELAY, GetFile (JStr ''doc/a.pdf''),
                    Sleep RETRY_DELAY, GetFile (JStr ''doc/a.pdf'')]\<rparr>)
   \<and> fs (empty_world\<lparr>clock := 3,
          trace := [GetFile (JStr ''doc/a.pdf''), Sleep RETRY_DELAY, GetFile (JStr ''doc/a.pdf''),
                    Sleep RETRY_DELAY, GetFile (JStr ''doc/a.pdf'')]\<rparr>) [''laws'', ''a.pdf''] = None"
proof -
  have run: "download_file broken_stream (JStr ''doc/a.pdf'') [''laws'', ''a.pdf''] empty_world
     = (False, empty_world\<lparr>clock := 3,
          trace := [GetFile (JStr ''doc/a.pdf''), Sleep RETRY_DELAY, GetFile (JStr ''doc/a.pdf''),
                    Sleep RETRY_DELAY, GetFile (JStr ''doc/a.pdf'')]\<rparr>)"
    unfolding download_file_def attempts
    by (simp add: broken_stream_def empty_world_def Let_def send_def write_chunks_def
        download_except_def MAX_RETRIES_def sleep_def unlink_def path_exists_def)
  from run download_file_failure_leaves_no_file [OF run] show ?thesis by (rule conjI)
qed



subsection \<open>Properties of the tree walker\<close>

lemma get_folder_data_loop_fs:
  "fs (snd (get_folder_data_loop e folder_id todo w)) = fs w"
  by (induction todo arbitrary: w)
     (auto simp: Let_def send_def sleep_def split: folder_response.splits)

lemma get_folder_data_fs [simp]: "fs (snd (get_folder_data e folder_id w)) = fs w"
  by (simp add: get_folder_data_def get_folder_data_loop_fs)

lemma get_folder_data_loop_file_requests:
  "file_requests (snd (get_folder_data_loop e folder_id todo w)) = file_requests w"
  by (induction todo arbitrary: w)
     (auto simp: Let_def send_def sleep_def file_requests_def split: folder_response.splits)

lemma get_folder_data_file_requests [simp]:
  "file_requests (snd (get_folder_data e folder_id w)) = file_requests w"
  by (simp add: get_folder_data_def get_folder_data_loop_file_requests)

lemma offline_fetch:
  "get_folder_data offline folder_id w =
     (JNull, w\<lparr>clock := clock w + 3,
        trace := trace w @ [GetFolder folder_id, Sleep RETRY_DELAY, GetFolder folder_id,
                  Sleep RETRY_DELAY, GetFolder folder_id]\<rparr>)"
  unfolding get_folder_data_def attempts
  by (simp add: offline_def Let_def send_def sleep_def MAX_RETRIES_def)

text \<open>
  C5. When the fetch of a folder returns no data, \<^verbatim>\<open>process_folder\<close> returns \<open>(0, 0)\<close>
  and leaves the world as the fetch left it: no file is written and no download
  requested. When that folder is an entry of a list of subfolders, the rest of the list
  is processed with the counters unchanged.
\<close>

theorem failed_fetch_skips_subtree:
  "(fst (get_folder_data e folder_id w) = JNull \<longrightarrow>
      process_folder (Suc depth_left) e folder_id current_path w
        = Inr (0, 0, snd (get_folder_data e folder_id w))
      \<and> fs (snd (get_folder_data e folder_id w)) = fs w
      \<and> file_requests (snd (get_folder_data e folder_id w)) = file_requests w)
   \<and> (map_of sub ''id'' = Some sub_id \<and> sub_id \<noteq> JNull
        \<and> (case map_of sub ''name'' of None \<Rightarrow> JStr (''folder_'' @ py_str e sub_id) | Some v \<Rightarrow> v)
            = JStr s
        \<and> fst (get_folder_data e sub_id (mkdir (current_path @ [sanitize_filename s]) w)) = JNull \<longrightarrow>
      process_subfolders (process_folder (Suc depth_left) e) e current_path (JObj sub # rest)
          downloaded failed w
        = process_subfolders (process_folder (Suc depth_left) e) e current_path rest
            downloaded failed
            (snd (get_folder_data e sub_id (mkdir (current_path @ [sanitize_filename s]) w))))"
  by (auto simp: Let_def split: prod.splits option.splits)

theorem failed_fetch_skips_subtree_witness:
  "process_folder (Suc 0) offline (JInt 5) [''laws''] empty_world
     = Inr (0, 0, snd (get_folder_data offline (JInt 5) empty_world))
   \<and> process_subfolders (process_folder (Suc 0) offline) offline [''laws'']
        [JObj [(''id'', JInt 5), (''name'', JStr ''Five'')], JObj [(''name'', JStr ''no id'')]]
        2 1 empty_world
     = Inr (2, 1, snd (get_folder_data offline (JInt 5) (mkdir [''laws'', ''Five''] empty_world)))"
proof -
  have five: "sanitize_filename ''Five'' = ''Five''"
    by (simp add: sanitize_filename_def strip_def re_sub_invalid_def invalid_chars_def)
  have down: "fst (get_folder_data offline i w) = JNull" for i w
    by (simp add: offline_fetch)
  from down failed_fetch_skips_subtree [of offline "JInt 5" empty_world 0 "[''laws'']"]
  have "process_folder (Suc 0) offline (JInt 5) [''laws''] empty_world
     = Inr (0, 0, snd (get_folder_data offline (JInt 5) empty_world))"
    by blast
  moreover
  from down failed_fetch_skips_subtree [of offline "JInt 5" empty_world 0 "[''laws'']"
      "[(''id'', JInt 5), (''name'', JStr ''Five'')]" "JInt 5" "''Five''"
      "[JObj [(''name'', JStr ''no id'')]]" 2 1]
  have "process_subfolders (process_folder (Suc 0) offline) offline [''laws'']
        [JObj [(''id'', JInt 5), (''name'', JStr ''Five'')], JObj [(''name'', JStr ''no id'')]]
        2 1 empty_world
     = process_subfolders (process_folder (Suc 0) offline) offline [''laws'']
        [JObj [(''name'', JStr ''no id'')]] 2 1
        (snd (get_folder_data offline (JInt 5) (mkdir [''laws'', ''Five''] empty_world)))"
    by (simp add: five)
  ultimately show ?thesis by simp
qed

text \<open>
  C10. A file entry without a \<open>path\<close>, or with the empty string as its \<open>path\<close>, leaves
  both counters and the world as they were, whatever its \<open>name\<close>: no local path is
  looked up and nothing is requested.
\<close>

theorem pathless_entry_skipped:
  "map_of entry ''path'' = None \<or> map_of entry ''path'' = Some (JStr [])
   \<Longrightarrow> process_file e current_path (JObj entry) downloaded failed w = Inr (downloaded, failed, w)"
  by (auto simp: process_file_def)

theorem pathless_entry_skipped_witness:
  "process_file scenario [''laws''] (JObj [(''name'', JStr ''Law A.pdf'')]) 3 1 empty_world
     = Inr (3, 1, empty_world)
   \<and> process_file scenario [''laws''] (JObj [(''path'', JStr []), (''name'', JStr ''Law A.pdf'')])
        3 1 empty_world
     = Inr (3, 1, empty_world)"
  using pathless_entry_skipped [of "[(''name'', JStr ''Law A.pdf'')]" scenario "[''laws'']" 3 1
      empty_world]
    pathless_entry_skipped [of "[(''path'', JStr []), (''name'', JStr ''Law A.pdf'')]" scenario
      "[''laws'']" 3 1 empty_world]
  by simp

subsection \<open>The extension of a saved file\<close>

lemma replicate_4: "replicate 4 x = [x, x, x, x]"
  by (simp add: eval_nat_numeral)

lemma long_name:
  "local_name e (JStr ''doc/x'') (JStr (replicate 197 CHR ''a''))
     = Inr (replicate 197 CHR ''a'' @ ''.pd'')"
  by (simp add: local_name_def derive_file_name_def ensure_pdf_def endswith_def lower_def
      sanitize_filename_def strip_def re_sub_invalid_def invalid_chars_def Let_def lower_char_def
      dropWhile_append3 replicate_4)

text \<open>
  C1 on two entries. A name of 197 letters gets \<^verbatim>\<open>.pdf\<close> appended and is then cut to 200
  characters by the sanitizer: the file is saved under a name that ends in \<^verbatim>\<open>.pd\<close>. An
  entry without a name whose path ends in a slash is saved as \<^verbatim>\<open>pdf\<close>, the sanitizer
  having trimmed the leading dot of \<^verbatim>\<open>.pdf\<close>.
\<close>

theorem saved_name_loses_extension:
  "process_file scenario [''laws'']
       (JObj [(''path'', JStr ''doc/x''), (''name'', JStr (replicate 197 CHR ''a''))])
       0 0 empty_world
     = Inr (1, 0, empty_world
         \<lparr>fs := (fs empty_world)([''laws'', replicate 197 CHR ''a'' @ ''.pd''] \<mapsto> File ''%PDF''),
          clock := 1, trace := [GetFile (JStr ''doc/x''), Sleep DOWNLOAD_DELAY]\<rparr>)
   \<and> \<not> endswith (lower (replicate 197 CHR ''a'' @ ''.pd'')) ''.pdf''
   \<and> local_name scenario (JStr ''doc/'') (JStr []) = Inr ''pdf''
   \<and> \<not> endswith (lower ''pdf'') ''.pdf''"
proof -
  have "process_file scenario [''laws'']
       (JObj [(''path'', JStr ''doc/x''), (''name'', JStr (replicate 197 CHR ''a''))])
       0 0 empty_world
     = Inr (1, 0, empty_world
         \<lparr>fs := (fs empty_world)([''laws'', replicate 197 CHR ''a'' @ ''.pd''] \<mapsto> File ''%PDF''),
          clock := 1, trace := [GetFile (JStr ''doc/x''), Sleep DOWNLOAD_DELAY]\<rparr>)"
    unfolding process_file_def download_file_def attempts
    by (simp add: long_name scenario_def empty_world_def path_exists_def Let_def send_def
        write_chunks_def sleep_def)
  moreover have "\<not> endswith (lower (replicate 197 CHR ''a'' @ ''.pd'')) ''.pdf''"
    by (simp add: endswith_def lower_def lower_char_def)
  moreover have "local_name scenario (JStr ''doc/'') (JStr []) = Inr ''pdf''"
    by (simp add: local_name_def derive_file_name_def ensure_pdf_def endswith_def lower_def
        sanitize_filename_def strip_def re_sub_invalid_def invalid_chars_def Let_def
        lower_char_def last_segment_def scenario_def)
  moreover have "\<not> endswith (lower ''pdf'') ''.pdf''"
    by (simp add: endswith_def lower_def)
  ultimately show ?thesis by blast
qed

subsection \<open>What the folder fetcher returns\<close>





subsection \<open>Properties of the run controller\<close>

lemma path_exists_mkdir: "p \<noteq> [] \<Longrightarrow> path_exists (mkdir p w) p"
  by (simp add: path_exists_def mkdir_def)

lemma str_root_ids: "str_int 12 = ''12''" "str_int 569 = ''569''"
  by (simp_all add: str_int_def str_nat.simps digit_def)

text \<open>
  C6, as the code has it. For a root id whose fetch returns no data the run controller
  creates no directory and does not call the tree walker: the totals are unchanged and
  the filesystem is as before. When the fetch returns a dict, the directory named after
  the sanitized \<open>name\<close> of the dict (after \<open>resources_<id>\<close> when the dict has no \<open>name\<close>)
  is created under the output directory, and the tree walker runs on the id and that
  directory, its counts being added to the totals.
\<close>

theorem run_controller_root:
  "(fst (get_folder_data e (JInt root_id) w) = JNull \<longrightarrow>
      process_root depth_limit e root_id total_downloaded total_failed w
        = Inr (total_downloaded, total_failed, snd (get_folder_data e (JInt root_id) w))
      \<and> fs (snd (get_folder_data e (JInt root_id) w)) = fs w)
   \<and> (get_folder_data e (JInt root_id) w = (JObj items, w1)
        \<and> (case map_of items ''name'' of
              None \<Rightarrow> JStr (''resources_'' @ str_int root_id) | Some v \<Rightarrow> v) = JStr s \<longrightarrow>
      process_root depth_limit e root_id total_downloaded total_failed w
        = (case process_folder depth_limit e (JInt root_id) (OUTPUT_DIR @ [sanitize_filename s])
                  (mkdir (OUTPUT_DIR @ [sanitize_filename s]) w1) of
             Inl err \<Rightarrow> Inl err
           | Inr (downloaded, failed, w3) \<Rightarrow>
               Inr (total_downloaded + downloaded, total_failed + failed, w3))
      \<and> path_exists (mkdir (OUTPUT_DIR @ [sanitize_filename s]) w1)
           (OUTPUT_DIR @ [sanitize_filename s]))"
  by (auto simp: process_root_def Let_def path_exists_mkdir split: prod.splits option.splits)

theorem run_controller_root_witness:
  "process_root 3 offline 12 0 0 empty_world
     = Inr (0, 0, snd (get_folder_data offline (JInt 12) empty_world))
   \<and> fs (snd (get_folder_data offline (JInt 12) empty_world)) = fs empty_world
   \<and> process_root 3 bare_reply 12 0 0 empty_world
     = (case process_folder 3 bare_reply (JInt 12) [''laws'', ''Lois'']
               (mkdir [''laws'', ''Lois''] (send (GetFolder (JInt 12)) empty_world)) of
          Inl err \<Rightarrow> Inl err
        | Inr (downloaded, failed, w3) \<Rightarrow> Inr (0 + downloaded, 0 + failed, w3))
   \<and> path_exists (mkdir [''laws'', ''Lois''] (send (GetFolder (JInt 12)) empty_world))
        [''laws'', ''Lois'']"
proof -
  have lois: "sanitize_filename ''Lois'' = ''Lois''"
    by (simp add: sanitize_filename_def strip_def re_sub_invalid_def invalid_chars_def)
  have down: "fst (get_folder_data offline (JInt 12) empty_world) = JNull"
    by (simp add: offline_fetch)
  have fetch: "get_folder_data bare_reply (JInt 12) empty_world
     = (JObj [(''name'', JStr ''Lois'')], send (GetFolder (JInt 12)) empty_world)"
    unfolding get_folder_data_def attempts by (simp add: bare_reply_def)
  from down run_controller_root [of offline 12 empty_world 3 0 0]
  have "process_root 3 offline 12 0 0 empty_world
     = Inr (0, 0, snd (get_folder_data offline (JInt 12) empty_world))
   \<and> fs (snd (get_folder_data offline (JInt 12) empty_world)) = fs empty_world"
    by blast
  moreover
  from fetch run_controller_root [of bare_reply 12 empty_world 3 0 0
      "[(''name'', JStr ''Lois'')]" "send (GetFolder (JInt 12)) empty_world" "''Lois''"]
  have "process_root 3 bare_reply 12 0 0 empty_world
     = (case process_folder 3 bare_reply (JInt 12) [''laws'', ''Lois'']
               (mkdir [''laws'', ''Lois''] (send (GetFolder (JInt 12)) empty_world)) of
          Inl err \<Rightarrow> Inl err
        | Inr (downloaded, failed, w3) \<Rightarrow> Inr (0 + downloaded, 0 + failed, w3))
   \<and> path_exists (mkdir [''laws'', ''Lois''] (send (GetFolder (JInt 12)) empty_world))
        [''laws'', ''Lois'']"
    by (simp add: lois OUTPUT_DIR_def)
  ultimately show ?thesis by blast
qed

text \<open>
  The claim as stated fails when the service cannot be reached: the run ends with the
  output directory alone, and neither \<^verbatim>\<open>laws/resources_12\<close> nor \<^verbatim>\<open>laws/resources_569\<close>
  exists.
\<close>

theorem run_controller_root_counterexample:
  "main 5 offline empty_world =
     Inr (0, 0, (mkdir OUTPUT_DIR empty_world)\<lparr>clock := 6,
        trace := [GetFolder (JInt 12), Sleep RETRY_DELAY, GetFolder (JInt 12), Sleep RETRY_DELAY,
                  GetFolder (JInt 12), GetFolder (JInt 569), Sleep RETRY_DELAY,
                  GetFolder (JInt 569), Sleep RETRY_DELAY, GetFolder (JInt 569)]\<rparr>)
   \<and> fs (mkdir OUTPUT_DIR empty_world) [''laws'', ''resources_'' @ str_int 12] = None
   \<and> fs (mkdir OUTPUT_DIR empty_world) [''laws'', ''resources_'' @ str_int 569] = None"
  unfolding main_def ROOT_FOLDER_IDS_def main_loop.simps process_root_def get_folder_data_def
    attempts
  by (simp add: offline_def Let_def send_def sleep_def MAX_RETRIES_def mkdir_def OUTPUT_DIR_def
      empty_world_def str_root_ids)

subsection \<open>Running the walk again\<close>

text \<open>
  A download touches no path but its destination, and a download that succeeds leaves a
  file there.
\<close>

lemma fs_download_except_other:
  "p \<noteq> save_path \<Longrightarrow> fs (download_except attempt save_path w) p = fs w p"
  by (simp add: download_except_def Let_def unlink_def sleep_def)

lemma download_file_loop_other:
  "p \<noteq> save_path \<Longrightarrow> fs (snd (download_file_loop e file_path save_path todo w)) p = fs w p"
proof (induction todo arbitrary: w)
  case Nil
  show ?case by simp
next
  case (Cons attempt rest)
  show ?case
  proof (cases "file_api e (clock w) file_path")
    case FileError
    then show ?thesis
      using Cons.prems by (simp add: Cons.IH fs_download_except_other send_def)
  next
    case (FileStream chunks ok)
    then show ?thesis
      using Cons.prems
      by (simp add: Let_def Cons.IH fs_download_except_other send_def write_chunks_def)
  qed
qed

lemma download_file_loop_True:
  "download_file_loop e file_path save_path todo w = (True, w1) \<Longrightarrow> fs w1 save_path \<noteq> None"
proof (induction todo arbitrary: w)
  case Nil
  then show ?case by simp
next
  case (Cons attempt rest)
  show ?case
  proof (cases "file_api e (clock w) file_path")
    case FileError
    with Cons.prems show ?thesis by (auto dest: Cons.IH)
  next
    case (FileStream chunks ok)
    show ?thesis
    proof (cases ok)
      case True
      with FileStream Cons.prems show ?thesis
        by (auto simp: Let_def write_chunks_def)
    next
      case False
      with FileStream Cons.prems show ?thesis
        by (auto simp: Let_def dest: Cons.IH)
    qed
  qed
qed

lemma path_exists_sleep [simp]: "path_exists (sleep seconds w) p = path_exists w p"
  by (simp add: path_exists_def sleep_def)

lemma download_file_keeps:
  assumes "path_exists w p" and "\<not> path_exists w save_path"
  shows "path_exists (snd (download_file e file_path save_path w)) p"
proof -
  from assms have "p \<noteq> save_path" by auto
  then have "fs (snd (download_file e file_path save_path w)) p = fs w p"
    unfolding download_file_def by (rule download_file_loop_other)
  with assms(1) show ?thesis by (simp add: path_exists_def)
qed

lemma download_file_True:
  "download_file e file_path save_path w = (True, w1) \<Longrightarrow> path_exists w1 save_path"
  unfolding download_file_def path_exists_def by (rule download_file_loop_True)

text \<open>One file entry: what exists stays, and the count of failures does not decrease.\<close>

lemma process_file_failed:
  "process_file e current_path file_info downloaded failed w = Inr (downloaded1, failed1, w1)
   \<Longrightarrow> failed \<le> failed1"
  by (auto simp: process_file_def Let_def split: sum.splits if_splits prod.splits)

lemma process_file_keeps:
  assumes "process_file e current_path file_info downloaded failed w = Inr (downloaded1, failed1, w1)"
    and "path_exists w p"
  shows "path_exists w1 p"
  using assms download_file_keeps [of w p _ e]
  by (auto simp: process_file_def Let_def split: sum.splits if_splits prod.splits)
     (metis snd_conv)+

lemma process_files_failed:
  "process_files e current_path entries downloaded failed w = Inr (downloaded1, failed1, w1)
   \<Longrightarrow> failed \<le> failed1"
proof (induction entries arbitrary: downloaded failed w)
  case Nil
  then show ?case by simp
next
  case (Cons file_info rest)
  then show ?case
    by (auto split: sum.splits dest!: process_file_failed) fastforce
qed

lemma process_files_keeps:
  "process_files e current_path entries downloaded failed w = Inr (downloaded1, failed1, w1)
   \<Longrightarrow> path_exists w p \<Longrightarrow> path_exists w1 p"
proof (induction entries arbitrary: downloaded failed w)
  case Nil
  then show ?case by simp
next
  case (Cons file_info rest)
  from Cons.prems(1) obtain d2 f2 w2 where
    step: "process_file e current_path file_info downloaded failed w = Inr (d2, f2, w2)"
    and tail: "process_files e current_path rest d2 f2 w2 = Inr (downloaded1, failed1, w1)"
    by (auto split: sum.splits)
  from step Cons.prems(2) have "path_exists w2 p" by (rule process_file_keeps)
  with tail show ?case by (rule Cons.IH)
qed

text \<open>
  A file entry that was counted as downloaded is skipped in any world that holds the
  paths of the world it left.
\<close>

lemma process_file_rerun:
  assumes first: "process_file e current_path file_info downloaded failed w
                    = Inr (downloaded1, failed, w1)"
    and covers: "\<And>p. path_exists w1 p \<Longrightarrow> path_exists w' p"
  shows "process_file e current_path file_info downloaded failed w' = Inr (downloaded1, failed, w')"
  using first covers download_file_True [of e]
  by (auto simp: process_file_def Let_def split: sum.splits if_splits prod.splits)

lemma process_files_rerun:
  assumes "process_files e current_path entries downloaded failed w = Inr (downloaded1, failed, w1)"
    and "\<And>p. path_exists w1 p \<Longrightarrow> path_exists w' p"
  shows "process_files e current_path entries downloaded failed w' = Inr (downloaded1, failed, w')"
  using assms
proof (induction entries arbitrary: downloaded w)
  case Nil
  then show ?case by simp
next
  case (Cons file_info rest)
  from Cons.prems(1) obtain d2 f2 w2 where
    step: "process_file e current_path file_info downloaded failed w = Inr (d2, f2, w2)"
    and tail: "process_files e current_path rest d2 f2 w2 = Inr (downloaded1, failed, w1)"
    by (auto split: sum.splits)
  from step have "failed \<le> f2" by (rule process_file_failed)
  moreover from tail have "f2 \<le> failed" by (rule process_files_failed)
  ultimately have f2: "f2 = failed" by simp
  have "path_exists w' p" if "path_exists w2 p" for p
    using process_files_keeps [OF tail that] by (rule Cons.prems(2))
  with step have "process_file e current_path file_info downloaded failed w' = Inr (d2, failed, w')"
    unfolding f2 by (rule process_file_rerun)
  moreover from tail Cons.prems(2)
  have "process_files e current_path rest d2 failed w' = Inr (downloaded1, failed, w')"
    unfolding f2 by (rule Cons.IH)
  ultimately show ?case by simp
qed

text \<open>Creating a directory keeps what exists, and changes nothing when all of it exists.\<close>

lemma mkdir_keeps: "path_exists w p \<Longrightarrow> path_exists (mkdir q w) p"
  by (simp add: path_exists_def mkdir_def)

lemma file_requests_mkdir [simp]: "file_requests (mkdir q w) = file_requests w"
  by (simp add: file_requests_def mkdir_def)

lemma mkdir_covered:
  assumes "\<And>p. path_exists (mkdir q w) p \<Longrightarrow> path_exists w' p"
  shows "mkdir q w' = w'"
proof -
  have "fs w' r \<noteq> None" if "r \<noteq> []" and "take (length r) q = r" for r
  proof -
    from that have "path_exists (mkdir q w) r"
      by (simp add: path_exists_def mkdir_def)
    then have "path_exists w' r" by (rule assms)
    then show ?thesis by (simp add: path_exists_def)
  qed
  then have "(\<lambda>r. if r \<noteq> [] \<and> take (length r) q = r \<and> fs w' r = None then Some Dir else fs w' r)
      = fs w'"
    by (intro ext) auto
  then show ?thesis by (simp add: mkdir_def)
qed

lemma path_exists_get_folder_data [simp]:
  "path_exists (snd (get_folder_data e folder_id w)) p = path_exists w p"
  by (simp add: path_exists_def)

text \<open>
  Whether an entry of \<^verbatim>\<open>folders\<close> is skipped or visited, and where, depends on the entry
  alone.
\<close>

lemma process_subfolders_Cons_cases:
  assumes "process_subfolders recurse e current_path (subfolder # rest) downloaded failed w = Inr r"
  obtains
    (skip) "\<And>d f v. process_subfolders recurse e current_path (subfolder # rest) d f v
              = process_subfolders recurse e current_path rest d f v"
  | (visit) sub_id q where
      "\<And>d f v. process_subfolders recurse e current_path (subfolder # rest) d f v
         = (case recurse sub_id q (mkdir q v) of
              Inl err \<Rightarrow> Inl err
            | Inr (sub_downloaded, sub_failed, w2) \<Rightarrow>
                process_subfolders recurse e current_path rest
                  (d + sub_downloaded) (f + sub_failed) w2)"
proof (cases "dict_get subfolder ''id'' JNull")
  case (Inl err)
  with assms show ?thesis by simp
next
  case id: (Inr sub_id)
  show ?thesis
  proof (cases "dict_get subfolder ''name'' (JStr (''folder_'' @ py_str e sub_id))")
    case (Inl err)
    with id assms show ?thesis by simp
  next
    case name: (Inr sub_name)
    show ?thesis
    proof (cases "sub_id = JNull")
      case True
      with id name show ?thesis by (intro skip) simp
    next
      case False
      with id name assms obtain s where "sub_name = JStr s"
        by (cases sub_name) auto
      with id name False show ?thesis
        by (intro visit [of sub_id "current_path @ [sanitize_filename s]"]) (simp add: Let_def)
    qed
  qed
qed

lemma process_subfolders_failed:
  "process_subfolders recurse e current_path subfolders downloaded failed w
     = Inr (downloaded1, failed1, w1)
   \<Longrightarrow> failed \<le> failed1"
proof (induction subfolders arbitrary: downloaded failed w)
  case Nil
  then show ?case by simp
next
  case (Cons subfolder rest)
  from Cons.prems show ?case
  proof (cases rule: process_subfolders_Cons_cases)
    case skip
    with Cons.prems show ?thesis by (auto dest: Cons.IH)
  next
    case (visit sub_id q)
    with Cons.prems obtain sd sf w2 where
      "process_subfolders recurse e current_path rest (downloaded + sd) (failed + sf) w2
         = Inr (downloaded1, failed1, w1)"
      by (auto split: sum.splits)
    then have "failed + sf \<le> failed1" by (rule Cons.IH)
    then show ?thesis by simp
  qed
qed

lemma process_subfolders_keeps:
  assumes recurse_keeps:
    "\<And>i q v d f v1 p. recurse i q v = Inr (d, f, v1) \<Longrightarrow> path_exists v p \<Longrightarrow> path_exists v1 p"
  shows "process_subfolders recurse e current_path subfolders downloaded failed w
           = Inr (downloaded1, failed1, w1)
         \<Longrightarrow> path_exists w p \<Longrightarrow> path_exists w1 p"
proof (induction subfolders arbitrary: downloaded failed w)
  case Nil
  then show ?case by simp
next
  case (Cons subfolder rest)
  from Cons.prems(1) show ?case
  proof (cases rule: process_subfolders_Cons_cases)
    case skip
    with Cons.prems show ?thesis by (auto dest: Cons.IH)
  next
    case (visit sub_id q)
    with Cons.prems(1) obtain sd sf w2 where
      sub: "recurse sub_id q (mkdir q w) = Inr (sd, sf, w2)"
      and tail: "process_subfolders recurse e current_path rest (downloaded + sd) (failed + sf) w2
         = Inr (downloaded1, failed1, w1)"
      by (auto split: sum.splits)
    from Cons.prems(2) have "path_exists (mkdir q w) p" by (rule mkdir_keeps)
    with sub have "path_exists w2 p" by (rule recurse_keeps)
    with tail show ?thesis by (rule Cons.IH)
  qed
qed

text \<open>The steps of \<^verbatim>\<open>process_folder\<close> on a folder whose data was fetched.\<close>

lemma process_folder_Suc_cases:
  assumes "process_folder (Suc depth_left) e folder_id current_path w = Inr (downloaded, failed, w1)"
  obtains
    (no_data) "fst (get_folder_data e folder_id w) = JNull"
      "downloaded = 0" "failed = 0" "w1 = snd (get_folder_data e folder_id w)"
  | (data) file_list folder_list where
      "fst (get_folder_data e folder_id w) \<noteq> JNull"
      "\<And>v. fst (get_folder_data e folder_id v) = fst (get_folder_data e folder_id w) \<Longrightarrow>
         process_folder (Suc depth_left) e folder_id current_path v
           = (case process_files e current_path file_list 0 0 (snd (get_folder_data e folder_id v)) of
                Inl err \<Rightarrow> Inl err
              | Inr (d, f, w2) \<Rightarrow>
                  process_subfolders (process_folder depth_left e) e current_path folder_list d f w2)"
proof (cases "fst (get_folder_data e folder_id w) = JNull")
  case True
  with assms show ?thesis by (intro no_data) (auto split: prod.splits)
next
  case False
  with assms obtain items where fetched: "fst (get_folder_data e folder_id w) = JObj items"
    by (cases "fst (get_folder_data e folder_id w)") (auto split: prod.splits)
  with assms obtain file_list folder_list where
    "py_iter (case map_of items ''files'' of None \<Rightarrow> JArr [] | Some v \<Rightarrow> v) = Inr file_list"
    "py_iter (case map_of items ''folders'' of None \<Rightarrow> JArr [] | Some v \<Rightarrow> v) = Inr folder_list"
    by (auto split: prod.splits sum.splits)
  with False fetched show ?thesis
    by (intro data [where file_list = file_list and folder_list = folder_list])
       (auto split: prod.splits sum.splits)
qed

lemma process_folder_keeps:
  "process_folder depth e folder_id current_path w = Inr (downloaded, failed, w1)
   \<Longrightarrow> path_exists w p \<Longrightarrow> path_exists w1 p"
proof (induction depth arbitrary: folder_id current_path w downloaded failed w1 p)
  case 0
  then show ?case by simp
next
  case (Suc depth_left)
  from Suc.prems(1) show ?case
  proof (cases rule: process_folder_Suc_cases)
    case no_data
    with Suc.prems(2) show ?thesis by simp
  next
    case (data file_list folder_list)
    from data(2) [of w] Suc.prems(1) obtain d f w2 where
      files: "process_files e current_path file_list 0 0 (snd (get_folder_data e folder_id w))
                = Inr (d, f, w2)"
      and subs: "process_subfolders (process_folder depth_left e) e current_path folder_list d f w2
                = Inr (downloaded, failed, w1)"
      by (auto split: sum.splits)
    from Suc.prems(2) have "path_exists (snd (get_folder_data e folder_id w)) p" by simp
    with files have "path_exists w2 p" by (rule process_files_keeps)
    with subs show ?thesis
      by (rule process_subfolders_keeps [rotated]) (rule Suc.IH)
  qed
qed

text \<open>
  When the service answers a folder request the same way every time, the data fetched
  for a folder does not depend on when it is fetched.
\<close>

lemma get_folder_data_loop_stable:
  assumes "\<forall>t folder. folder_api e t folder = folder_api e 0 folder"
  shows "fst (get_folder_data_loop e folder_id todo w)
           = fst (get_folder_data_loop e folder_id todo w')"
proof (induction todo arbitrary: w w')
  case Nil
  show ?case by simp
next
  case (Cons attempt rest)
  have "folder_api e (clock w) folder_id = folder_api e 0 folder_id"
    "folder_api e (clock w') folder_id = folder_api e 0 folder_id"
    using assms by blast+
  then show ?case
    by (cases "folder_api e 0 folder_id") (auto simp: Let_def intro: Cons.IH)
qed

lemma get_folder_data_stable:
  "\<forall>t folder. folder_api e t folder = folder_api e 0 folder
   \<Longrightarrow> fst (get_folder_data e folder_id w) = fst (get_folder_data e folder_id w')"
  unfolding get_folder_data_def by (rule get_folder_data_loop_stable)

text \<open>
  The loop over the subfolders, run again in a world that holds every path of the world
  the first run left, gives the same counts and changes neither the filesystem nor the
  list of download requests, provided the recursive call does so.
\<close>

lemma process_subfolders_rerun:
  assumes recurse_keeps:
    "\<And>i q v d f v1 p. recurse i q v = Inr (d, f, v1) \<Longrightarrow> path_exists v p \<Longrightarrow> path_exists v1 p"
  and recurse_rerun:
    "\<And>i q v d v1 v'. recurse i q v = Inr (d, 0, v1)
       \<Longrightarrow> (\<And>p. path_exists v1 p \<Longrightarrow> path_exists v' p)
       \<Longrightarrow> \<exists>v2. recurse i q v' = Inr (d, 0, v2) \<and> fs v2 = fs v'
                 \<and> file_requests v2 = file_requests v'"
  shows "process_subfolders recurse e current_path subfolders downloaded failed w
           = Inr (downloaded1, failed, w1)
         \<Longrightarrow> (\<And>p. path_exists w1 p \<Longrightarrow> path_exists w' p)
         \<Longrightarrow> \<exists>w2. process_subfolders recurse e current_path subfolders downloaded failed w'
                       = Inr (downloaded1, failed, w2)
                   \<and> fs w2 = fs w' \<and> file_requests w2 = file_requests w'"
proof (induction subfolders arbitrary: downloaded w w')
  case Nil
  then show ?case by simp
next
  case (Cons subfolder rest)
  from Cons.prems(1) show ?case
  proof (cases rule: process_subfolders_Cons_cases)
    case skip
    from Cons.prems(1) have
      "process_subfolders recurse e current_path rest downloaded failed w
         = Inr (downloaded1, failed, w1)"
      by (simp only: skip)
    from Cons.IH [OF this Cons.prems(2)] show ?thesis by (simp only: skip)
  next
    case (visit sub_id q)
    from Cons.prems(1) obtain sd sf w2 where
      sub: "recurse sub_id q (mkdir q w) = Inr (sd, sf, w2)"
      and tail: "process_subfolders recurse e current_path rest (downloaded + sd) (failed + sf) w2
         = Inr (downloaded1, failed, w1)"
      unfolding visit by (auto split: sum.splits)
    from tail have "failed + sf \<le> failed" by (rule process_subfolders_failed)
    then have sf: "sf = 0" by simp
    have late: "path_exists w' p" if "path_exists w2 p" for p
      using process_subfolders_keeps [of recurse, OF recurse_keeps tail that]
      by (rule Cons.prems(2))
    have "path_exists w' p" if "path_exists (mkdir q w) p" for p
      using recurse_keeps [OF sub that] by (rule late)
    then have same: "mkdir q w' = w'" by (rule mkdir_covered)
    from sub late obtain w3 where
      sub': "recurse sub_id q w' = Inr (sd, 0, w3)"
      and w3: "fs w3 = fs w'" "file_requests w3 = file_requests w'"
      unfolding sf using recurse_rerun by blast
    have "path_exists w3 p" if "path_exists w1 p" for p
      using Cons.prems(2) [OF that] by (simp add: path_exists_def w3)
    with tail obtain w4 where
      "process_subfolders recurse e current_path rest (downloaded + sd) failed w3
         = Inr (downloaded1, failed, w4)"
      and "fs w4 = fs w3" "file_requests w4 = file_requests w3"
      unfolding sf using Cons.IH [of "downloaded + sd" w2 w3] by auto
    then show ?thesis
      unfolding visit by (simp add: same sub' w3)
  qed
qed

lemma process_folder_rerun:
  assumes stable: "\<forall>t folder. folder_api e t folder = folder_api e 0 folder"
  shows "process_folder depth e folder_id current_path w = Inr (downloaded, 0, w1)
         \<Longrightarrow> (\<And>p. path_exists w1 p \<Longrightarrow> path_exists w' p)
         \<Longrightarrow> \<exists>w2. process_folder depth e folder_id current_path w' = Inr (downloaded, 0, w2)
                   \<and> fs w2 = fs w' \<and> file_requests w2 = file_requests w'"
proof (induction depth arbitrary: folder_id current_path w downloaded w1 w')
  case 0
  then show ?case by simp
next
  case (Suc depth_left)
  have fetched: "fst (get_folder_data e folder_id w') = fst (get_folder_data e folder_id w)"
    using stable by (rule get_folder_data_stable)
  from Suc.prems(1) show ?case
  proof (cases rule: process_folder_Suc_cases)
    case no_data
    with fetched have "process_folder (Suc depth_left) e folder_id current_path w'
        = Inr (0, 0, snd (get_folder_data e folder_id w'))"
      by (simp add: split_beta)
    with no_data show ?thesis by simp
  next
    case (data file_list folder_list)
    let ?v = "snd (get_folder_data e folder_id w)" and ?v' = "snd (get_folder_data e folder_id w')"
    from data(2) [of w] Suc.prems(1) obtain d f w2 where
      files: "process_files e current_path file_list 0 0 ?v = Inr (d, f, w2)"
      and subs: "process_subfolders (process_folder depth_left e) e current_path folder_list d f w2
                = Inr (downloaded, 0, w1)"
      by (auto split: sum.splits)
    from subs have "f \<le> 0" by (rule process_subfolders_failed)
    then have f: "f = 0" by simp
    have covers: "path_exists ?v' p" if "path_exists w1 p" for p
      using Suc.prems(2) [OF that] by simp
    have keeps: "path_exists v1 p"
      if "process_folder depth_left e i q v = Inr (d, f, v1)" and "path_exists v p"
      for i q v d f v1 p
      using that by (rule process_folder_keeps)
    have rerun: "\<exists>v2. process_folder depth_left e i q v' = Inr (d, 0, v2) \<and> fs v2 = fs v'
                 \<and> file_requests v2 = file_requests v'"
      if "process_folder depth_left e i q v = Inr (d, 0, v1)"
        and "\<And>p. path_exists v1 p \<Longrightarrow> path_exists v' p"
      for i q v d v1 v'
      using that by (rule Suc.IH)
    have "path_exists w1 p" if "path_exists w2 p" for p
      using keeps subs that by (rule process_subfolders_keeps)
    then have "path_exists ?v' p" if "path_exists w2 p" for p
      using that covers by blast
    with files have files': "process_files e current_path file_list 0 0 ?v' = Inr (d, 0, ?v')"
      unfolding f by (rule process_files_rerun)
    from subs have subs0:
      "process_subfolders (process_folder depth_left e) e current_path folder_list d 0 w2
         = Inr (downloaded, 0, w1)"
      by (simp only: f)
    from keeps rerun subs0 covers have
      "\<exists>w4. process_subfolders (process_folder depth_left e) e current_path folder_list d 0 ?v'
              = Inr (downloaded, 0, w4)
            \<and> fs w4 = fs ?v' \<and> file_requests w4 = file_requests ?v'"
      by (rule process_subfolders_rerun)
    then show ?thesis
      unfolding data(2) [OF fetched] files' by simp
  qed
qed

text \<open>
  C2. A file entry whose local path exists is counted as downloaded and the world is left
  as it is: nothing is requested. Hence, when the service answers folder requests the same
  way every time and a walk has returned with no failure, a second walk from the world
  the first one left returns the same number of files, again with no failure, requests no
  download and leaves the filesystem unchanged.
\<close>

theorem rerun_downloads_nothing:
  "(map_of entry ''path'' = Some file_path \<and> truthy file_path
      \<and> local_name e file_path (case map_of entry ''name'' of None \<Rightarrow> JStr [] | Some v \<Rightarrow> v)
          = Inr safe_name
      \<and> path_exists w (current_path @ [safe_name]) \<longrightarrow>
    process_file e current_path (JObj entry) downloaded failed w = Inr (downloaded + 1, failed, w))
   \<and> ((\<forall>t folder. folder_api e t folder = folder_api e 0 folder)
      \<and> process_folder depth e folder_id current_path w = Inr (count, 0, w1) \<longrightarrow>
    (\<exists>w2. process_folder depth e folder_id current_path w1 = Inr (count, 0, w2)
          \<and> fs w2 = fs w1 \<and> file_requests w2 = file_requests w1))"
proof (intro conjI impI)
  assume "map_of entry ''path'' = Some file_path \<and> truthy file_path
      \<and> local_name e file_path (case map_of entry ''name'' of None \<Rightarrow> JStr [] | Some v \<Rightarrow> v)
          = Inr safe_name
      \<and> path_exists w (current_path @ [safe_name])"
  then show "process_file e current_path (JObj entry) downloaded failed w
               = Inr (downloaded + 1, failed, w)"
    by (simp add: process_file_def)
next
  assume "(\<forall>t folder. folder_api e t folder = folder_api e 0 folder)
      \<and> process_folder depth e folder_id current_path w = Inr (count, 0, w1)"
  then show "\<exists>w2. process_folder depth e folder_id current_path w1 = Inr (count, 0, w2)
          \<and> fs w2 = fs w1 \<and> file_requests w2 = file_requests w1"
    using process_folder_rerun [of e depth folder_id current_path w count w1 w1] by blast
qed

lemma scenario_names:
  "sanitize_filename ''Civil Code'' = ''Civil Code''"
  "local_name e (JStr ''doc/a.pdf'') (JStr ''Law A.pdf'') = Inr ''Law A.pdf''"
  by (simp_all add: local_name_def derive_file_name_def ensure_pdf_def endswith_def lower_def
      lower_char_def sanitize_filename_def strip_def re_sub_invalid_def invalid_chars_def)

lemma scenario_first_walk:
  "\<exists>w1. process_folder 3 scenario (JInt 12) [''laws'', ''Laws''] empty_world = Inr (1, 0, w1)
        \<and> fs w1 [''laws'', ''Laws'', ''Civil Code'', ''Law A.pdf''] = Some (File ''%PDF'')
        \<and> file_requests w1 = [GetFile (JStr ''doc/a.pdf'')]"
  by (simp add: numeral_3_eq_3 get_folder_data_def download_file_def attempts process_file_def
      scenario_names scenario_def scenario_folders_def empty_world_def send_def sleep_def
      mkdir_def write_chunks_def path_exists_def file_requests_def Let_def)

theorem rerun_downloads_nothing_witness:
  "process_file scenario [''laws'']
       (JObj [(''path'', JStr ''doc/a.pdf''), (''name'', JStr ''Law A.pdf'')]) 0 0
       (write_chunks [''laws'', ''Law A.pdf''] [''%PDF''] empty_world)
     = Inr (0 + 1, 0, write_chunks [''laws'', ''Law A.pdf''] [''%PDF''] empty_world)
   \<and> (\<exists>w1 w2.
        process_folder 3 scenario (JInt 12) [''laws'', ''Laws''] empty_world = Inr (1, 0, w1)
        \<and> fs w1 [''laws'', ''Laws'', ''Civil Code'', ''Law A.pdf''] = Some (File ''%PDF'')
        \<and> file_requests w1 = [GetFile (JStr ''doc/a.pdf'')]
        \<and> process_folder 3 scenario (JInt 12) [''laws'', ''Laws''] w1 = Inr (1, 0, w2)
        \<and> fs w2 = fs w1 \<and> file_requests w2 = file_requests w1)"
proof -
  have stable: "\<forall>t folder. folder_api scenario t folder = folder_api scenario 0 folder"
    by (simp add: scenario_def)
  have there: "path_exists (write_chunks [''laws'', ''Law A.pdf''] [''%PDF''] empty_world)
      ([''laws''] @ [''Law A.pdf''])"
    by (simp add: path_exists_def write_chunks_def)
  from scenario_first_walk obtain w1 where
    first: "process_folder 3 scenario (JInt 12) [''laws'', ''Laws''] empty_world = Inr (1, 0, w1)"
    and saved: "fs w1 [''laws'', ''Laws'', ''Civil Code'', ''Law A.pdf''] = Some (File ''%PDF'')"
      "file_requests w1 = [GetFile (JStr ''doc/a.pdf'')]"
    by blast
  from stable first
    rerun_downloads_nothing [where e = scenario and depth = 3 and folder_id = "JInt 12"
      and current_path = "[''laws'', ''Laws'']" and w = empty_world and count = 1 and ?w1.0 = w1]
  obtain w2 where
    "process_folder 3 scenario (JInt 12) [''laws'', ''Laws''] w1 = Inr (1, 0, w2)"
    "fs w2 = fs w1" "file_requests w2 = file_requests w1"
    by blast
  with first saved have
    "\<exists>w1 w2.
        process_folder 3 scenario (JInt 12) [''laws'', ''Laws''] empty_world = Inr (1, 0, w1)
        \<and> fs w1 [''laws'', ''Laws'', ''Civil Code'', ''Law A.pdf''] = Some (File ''%PDF'')
        \<and> file_requests w1 = [GetFile (JStr ''doc/a.pdf'')]
        \<and> process_folder 3 scenario (JInt 12) [''laws'', ''Laws''] w1 = Inr (1, 0, w2)
        \<and> fs w2 = fs w1 \<and> file_requests w2 = file_requests w1"
    by blast
  moreover
  from there scenario_names(2)
    rerun_downloads_nothing [where e = scenario and current_path = "[''laws'']"
      and entry = "[(''path'', JStr ''doc/a.pdf''), (''name'', JStr ''Law A.pdf'')]"
      and file_path = "JStr ''doc/a.pdf''" and safe_name = "''Law A.pdf''"
      and w = "write_chunks [''laws'', ''Law A.pdf''] [''%PDF''] empty_world"
      and downloaded = 0 and failed = 0]
  have "process_file scenario [''laws'']
       (JObj [(''path'', JStr ''doc/a.pdf''), (''name'', JStr ''Law A.pdf'')]) 0 0
       (write_chunks [''laws'', ''Law A.pdf''] [''%PDF''] empty_world)
     = Inr (0 + 1, 0, write_chunks [''laws'', ''Law A.pdf''] [''%PDF''] empty_world)"
    by simp
  ultimately show ?thesis by (rule conjI [rotated])
qed

end
